theory Spec2Isabelle
  imports Main
begin

section \<open>Strings as the converter sees them\<close>

text \<open>
  The converter \<^verbatim>\<open>gff2_to_gff3.py\<close> works on Python \<^verbatim>\<open>str\<close> values. A string is
  modelled as a \<^typ>\<open>string\<close>, one \<^typ>\<open>char\<close> per character, which covers every character
  of code point below 256 (all of ASCII, the alphabet of GFF files).
\<close>

abbreviation TAB :: char where "TAB \<equiv> CHR 0x09"
abbreviation NL :: char where "NL \<equiv> CHR 0x0A"
abbreviation DQUOTE :: char where "DQUOTE \<equiv> CHR 0x22"

text \<open>
  Python's notion of white space (\<^verbatim>\<open>str.isspace\<close>, the class \<^verbatim>\<open>\s\<close> of \<^verbatim>\<open>re\<close> on
  \<^verbatim>\<open>str\<close> patterns, and what \<^verbatim>\<open>int()\<close> strips), on code points below 256:
  U+0009..U+000D, U+001C..U+0020, U+0085 and U+00A0.
\<close>

definition py_isspace :: "char \<Rightarrow> bool" where
  "py_isspace c =
     (let n = (of_char c :: nat)
      in (9 \<le> n \<and> n \<le> 13) \<or> (28 \<le> n \<and> n \<le> 32) \<or> n = 133 \<or> n = 160)"

definition startswith :: "string \<Rightarrow> string \<Rightarrow> bool" where
  "startswith s p = (take (length p) s = p)"

definition endswith :: "string \<Rightarrow> string \<Rightarrow> bool" where
  "endswith s p = (length p \<le> length s \<and> drop (length s - length p) s = p)"

text \<open>\<^verbatim>\<open>sep.join(xs)\<close>.\<close>

fun join :: "string \<Rightarrow> string list \<Rightarrow> string" where
  "join sep [] = []"
| "join sep [x] = x"
| "join sep (x # y # ys) = x @ sep @ join sep (y # ys)"

text \<open>\<^verbatim>\<open>s.split(c)\<close> for a one-character separator: never an empty list.\<close>

fun split_on :: "char \<Rightarrow> string \<Rightarrow> string list" where
  "split_on c [] = [[]]"
| "split_on c (x # xs) =
     (if x = c then [] # split_on c xs
      else (case split_on c xs of
              [] \<Rightarrow> [[x]]
            | w # ws \<Rightarrow> (x # w) # ws))"

text \<open>\<^verbatim>\<open>s.rstrip('\n')\<close>: every trailing newline goes.\<close>

definition rstrip_nl :: "string \<Rightarrow> string" where
  "rstrip_nl s = rev (dropWhile (\<lambda>c. c = NL) (rev s))"

text \<open>
  The formatting of a value inside an f-string: a string is copied, \<^verbatim>\<open>None\<close> is printed
  as the four letters \<^verbatim>\<open>None\<close>.
\<close>

fun fmt :: "string option \<Rightarrow> string" where
  "fmt None = ''None''"
| "fmt (Some s) = s"

section \<open>The regular expression of the attribute translator\<close>

text \<open>
  \<^verbatim>\<open>convert_attributes\<close> scans with the pattern
  \<^verbatim>\<open>(\S+?)\s*\"([^\"]*)\"|(\S+?)=(\S+)\<close>. The pattern is kept as a syntax tree and run by
  a backtracking matcher that returns, for an input, every way to match in the order
  Python's engine tries them: the engine's answer is the first one. The nodes are the ones
  the pattern uses: a literal character, the three repetitions of a character class
  (lazy \<^verbatim>\<open>+?\<close>, greedy \<^verbatim>\<open>*\<close>, greedy \<^verbatim>\<open>+\<close>), a numbered group, sequence and
  alternation.
\<close>

datatype regex =
    Lit char
  | MinPlus "char \<Rightarrow> bool"
  | MaxStar "char \<Rightarrow> bool"
  | MaxPlus "char \<Rightarrow> bool"
  | Group nat regex
  | Seq regex regex
  | Branch regex regex

type_synonym groups = "nat \<Rightarrow> string option"

text \<open>
  \<open>rmatch r inp g\<close>: the ways \<open>r\<close> matches a prefix of \<open>inp\<close>, each as the input that is
  left and the groups set so far, in the engine's order of preference. Groups set on a path
  that fails are lost with the path, as the engine restores its marks on backtracking.
\<close>

fun rmatch :: "regex \<Rightarrow> string \<Rightarrow> groups \<Rightarrow> (string \<times> groups) list" where
  "rmatch (Lit c) inp g =
     (case inp of [] \<Rightarrow> [] | x # xs \<Rightarrow> if x = c then [(xs, g)] else [])"
| "rmatch (MinPlus cls) inp g =
     map (\<lambda>k. (drop k inp, g)) [1 ..< Suc (length (takeWhile cls inp))]"
| "rmatch (MaxStar cls) inp g =
     map (\<lambda>k. (drop k inp, g)) (rev [0 ..< Suc (length (takeWhile cls inp))])"
| "rmatch (MaxPlus cls) inp g =
     map (\<lambda>k. (drop k inp, g)) (rev [1 ..< Suc (length (takeWhile cls inp))])"
| "rmatch (Group n r) inp g =
     map (\<lambda>(rest, g'). (rest, g'(n := Some (take (length inp - length rest) inp))))
         (rmatch r inp g)"
| "rmatch (Seq r1 r2) inp g =
     concat (map (\<lambda>(rest, g'). rmatch r2 rest g') (rmatch r1 inp g))"
| "rmatch (Branch r1 r2) inp g = rmatch r1 inp g @ rmatch r2 inp g"

definition nonspace :: "char \<Rightarrow> bool" where
  "nonspace c = (\<not> py_isspace c)"

definition notquote :: "char \<Rightarrow> bool" where
  "notquote c = (c \<noteq> DQUOTE)"

definition pattern :: regex where
  "pattern =
     Branch
       (Seq (Group 1 (MinPlus nonspace))
         (Seq (MaxStar py_isspace)
           (Seq (Lit DQUOTE)
             (Seq (Group 2 (MaxStar notquote)) (Lit DQUOTE)))))
       (Seq (Group 3 (MinPlus nonspace))
         (Seq (Lit (CHR ''=''))
           (Group 4 (MaxPlus nonspace))))"

text \<open>A match object: its span in the scanned string and its groups.\<close>

record match =
  m_start :: nat
  m_end :: nat
  m_group :: groups

definition match_at :: "string \<Rightarrow> (string \<times> groups) option" where
  "match_at inp = (case rmatch pattern inp (\<lambda>_. None) of [] \<Rightarrow> None | x # _ \<Rightarrow> Some x)"

text \<open>
  \<^verbatim>\<open>pattern.finditer(s)\<close>: try to match at \<open>pos\<close>; on success yield the match and go on
  from its end, otherwise try one position further. After an empty match the engine moves
  one position on; the branch is written out, although this pattern never matches the
  empty string.
\<close>

function finditer_from :: "string \<Rightarrow> nat \<Rightarrow> match list" where
  "finditer_from s pos =
     (if length s < pos then []
      else (case match_at (drop pos s) of
              None \<Rightarrow> finditer_from s (Suc pos)
            | Some (rest, g) \<Rightarrow>
                (let e = length s - length rest
                 in \<lparr>m_start = pos, m_end = e, m_group = g\<rparr>
                    # finditer_from s (if pos < e then e else Suc pos))))"
  by pat_completeness auto
termination
  by (relation "measure (\<lambda>(s, pos). Suc (length s) - pos)") auto

declare finditer_from.simps [simp del]

definition finditer :: "string \<Rightarrow> match list" where
  "finditer s = finditer_from s 0"

section \<open>convert\_attributes\<close>

text \<open>
  The body of the loop: the key and the value come from groups 1 and 2 when group 1 is a
  non-empty string and group 2 is not \<^verbatim>\<open>None\<close>, from groups 3 and 4 otherwise, and are
  formatted as \<^verbatim>\<open>f"{key}={val}"\<close>.
\<close>

definition truthy :: "string option \<Rightarrow> bool" where
  "truthy v = (case v of None \<Rightarrow> False | Some s \<Rightarrow> s \<noteq> [])"

definition key_val :: "match \<Rightarrow> string option \<times> string option" where
  "key_val m =
     (if truthy (m_group m 1) \<and> m_group m 2 \<noteq> None
      then (m_group m 1, m_group m 2)
      else (m_group m 3, m_group m 4))"

definition render :: "match \<Rightarrow> string" where
  "render m = (case key_val m of (key, val) \<Rightarrow> fmt key @ ''='' @ fmt val)"

definition convert_attributes :: "string \<Rightarrow> string" where
  "convert_attributes attr_str = join '';'' (map render (finditer attr_str))"

section \<open>Integers and their text\<close>

text \<open>
  Every failure of the program is a Python \<^verbatim>\<open>ValueError\<close>; the three places that raise it
  are told apart by their cause: unpacking a line of more than nine columns into nine names,
  \<^verbatim>\<open>int()\<close> on a field that is not an integer literal (the field is kept), and
  \<^verbatim>\<open>min()\<close> of an empty list.
\<close>

datatype cause =
    TooManyValuesToUnpack
  | InvalidLiteralForInt string
  | EmptySequence

datatype error = ValueError cause

definition is_digit :: "char \<Rightarrow> bool" where
  "is_digit c = (let n = (of_char c :: nat) in 48 \<le> n \<and> n \<le> 57)"

definition digit_val :: "char \<Rightarrow> nat" where
  "digit_val c = of_char c - 48"

text \<open>
  The digits of a literal: a digit, then digits each preceded by at most one underscore.
\<close>

fun digits_ok :: "string \<Rightarrow> bool" where
  "digits_ok [] = False"
| "digits_ok [c] = is_digit c"
| "digits_ok (c # d # cs) =
     (if is_digit c
      then (if d = CHR ''_'' then digits_ok cs else digits_ok (d # cs))
      else False)"

definition digits_value :: "string \<Rightarrow> nat" where
  "digits_value ds =
     foldl (\<lambda>acc c. if c = CHR ''_'' then acc else acc * 10 + digit_val c) 0 ds"

definition strip :: "string \<Rightarrow> string" where
  "strip s = rev (dropWhile py_isspace (rev (dropWhile py_isspace s)))"

text \<open>
  \<^verbatim>\<open>int(s)\<close> for a string, base ten: white space around the literal is dropped, one
  sign may lead, and anything else raises. The interpreter's optional cap on the number of
  digits is a setting of the runtime and is left out.
\<close>

definition py_int :: "string \<Rightarrow> int option" where
  "py_int s =
     (let t = strip s;
          neg = (t \<noteq> [] \<and> hd t = CHR ''-'');
          body = (if t \<noteq> [] \<and> (hd t = CHR ''-'' \<or> hd t = CHR ''+'') then tl t else t)
      in if digits_ok body
         then Some (if neg then - int (digits_value body) else int (digits_value body))
         else None)"

text \<open>\<^verbatim>\<open>str(n)\<close> for an integer, as an f-string prints it.\<close>

function str_nat :: "nat \<Rightarrow> string" where
  "str_nat n =
     (if n < 10 then [char_of (48 + n)]
      else str_nat (n div 10) @ [char_of (48 + n mod 10)])"
  by pat_completeness auto
termination
  by (relation "measure id") auto

definition str_int :: "int \<Rightarrow> string" where
  "str_int i = (if i < 0 then CHR ''-'' # str_nat (nat (- i)) else str_nat (nat i))"

text \<open>
  \<^verbatim>\<open>min(xs)\<close> and \<^verbatim>\<open>max(xs)\<close> of a list: the empty list raises, otherwise one pass that
  keeps the best element seen.
\<close>

definition py_min :: "int list \<Rightarrow> error + int" where
  "py_min xs =
     (case xs of
        [] \<Rightarrow> Inl (ValueError EmptySequence)
      | x # rest \<Rightarrow> Inr (foldl (\<lambda>best y. if y < best then y else best) x rest))"

definition py_max :: "int list \<Rightarrow> error + int" where
  "py_max xs =
     (case xs of
        [] \<Rightarrow> Inl (ValueError EmptySequence)
      | x # rest \<Rightarrow> Inr (foldl (\<lambda>best y. if best < y then y else best) x rest))"

section \<open>parse\_gff2\<close>

text \<open>
  A feature is the tuple \<^verbatim>\<open>(ftype, s, e, score, strand, phase, attr_str3)\<close> that the parser
  appends.
\<close>

type_synonym feature = "string \<times> int \<times> int \<times> string \<times> string \<times> string \<times> string"

fun f_type :: "feature \<Rightarrow> string" where
  "f_type (ftype, s, e, score, sd, phase, attrs) = ftype"

fun f_start :: "feature \<Rightarrow> int" where
  "f_start (ftype, s, e, score, sd, phase, attrs) = s"

fun f_end :: "feature \<Rightarrow> int" where
  "f_end (ftype, s, e, score, sd, phase, attrs) = e"

fun f_score :: "feature \<Rightarrow> string" where
  "f_score (ftype, s, e, score, sd, phase, attrs) = score"

fun f_strand :: "feature \<Rightarrow> string" where
  "f_strand (ftype, s, e, score, sd, phase, attrs) = sd"

fun f_phase :: "feature \<Rightarrow> string" where
  "f_phase (ftype, s, e, score, sd, phase, attrs) = phase"

fun f_attrs :: "feature \<Rightarrow> string" where
  "f_attrs (ftype, s, e, score, sd, phase, attrs) = attrs"

text \<open>The variables of the parser's loop; \<^verbatim>\<open>seqid\<close> and \<^verbatim>\<open>strand\<close> start as \<^verbatim>\<open>None\<close>.\<close>

record pstate =
  features :: "feature list"
  starts :: "int list"
  ends :: "int list"
  seqid :: "string option"
  strand :: "string option"

definition init_state :: pstate where
  "init_state = \<lparr>features = [], starts = [], ends = [], seqid = None, strand = None\<rparr>"

definition is_comment :: "string \<Rightarrow> bool" where
  "is_comment line =
     (startswith line ''track'' \<or> startswith line ''##'' \<or> startswith line ''#'')"

definition columns :: "string \<Rightarrow> string list" where
  "columns line = split_on TAB (rstrip_nl line)"

text \<open>
  One turn of the loop over the lines of the file. The two \<^verbatim>\<open>continue\<close> leave the state
  as it is; the unpacking into nine names raises on any other number of columns; \<^verbatim>\<open>int\<close>
  is applied to the start field, then to the end field.
\<close>

definition parse_line :: "pstate \<Rightarrow> string \<Rightarrow> error + pstate" where
  "parse_line st line =
     (if is_comment line then Inr st
      else let cols = columns line in
        if length cols < 9 then Inr st
        else if length cols \<noteq> 9 then Inl (ValueError TooManyValuesToUnpack)
        else
          (case py_int (cols ! 3) of
             None \<Rightarrow> Inl (ValueError (InvalidLiteralForInt (cols ! 3)))
           | Some s \<Rightarrow>
               (case py_int (cols ! 4) of
                  None \<Rightarrow> Inl (ValueError (InvalidLiteralForInt (cols ! 4)))
                | Some e \<Rightarrow>
                    Inr \<lparr>features = features st @
                           [(cols ! 2, s, e, cols ! 5, cols ! 6, cols ! 7,
                             convert_attributes (cols ! 8))],
                         starts = starts st @ [s],
                         ends = ends st @ [e],
                         seqid = Some (cols ! 0),
                         strand = Some (cols ! 6)\<rparr>)))"

fun parse_lines :: "pstate \<Rightarrow> string list \<Rightarrow> error + pstate" where
  "parse_lines st [] = Inr st"
| "parse_lines st (line # rest) =
     (case parse_line st line of
        Inl err \<Rightarrow> Inl err
      | Inr st' \<Rightarrow> parse_lines st' rest)"

type_synonym parsed = "string option \<times> int \<times> int \<times> string option \<times> feature list"

text \<open>
  \<^verbatim>\<open>parse_gff2\<close>, given the lines that iterating over the open file yields: the loop, then
  \<^verbatim>\<open>min(starts)\<close> and \<^verbatim>\<open>max(ends)\<close> in the returned tuple.
\<close>

definition parse_gff2 :: "string list \<Rightarrow> error + parsed" where
  "parse_gff2 lines =
     (case parse_lines init_state lines of
        Inl err \<Rightarrow> Inl err
      | Inr st \<Rightarrow>
          (case py_min (starts st) of
             Inl err \<Rightarrow> Inl err
           | Inr lo \<Rightarrow>
               (case py_max (ends st) of
                  Inl err \<Rightarrow> Inl err
                | Inr hi \<Rightarrow> Inr (seqid st, lo, hi, strand st, features st))))"

section \<open>write\_gff3\<close>

text \<open>
  The text that \<^verbatim>\<open>write_gff3\<close> writes, one string for each call of \<^verbatim>\<open>fout.write\<close>, in
  order: the two directives, the mRNA line, a line for each feature that the loop does not
  skip, and the terminator. The file written is their concatenation; each string is one
  line of it when the fields hold no newline, as the fields cut out of a line of a file do.
\<close>

definition mrna_line ::
  "string \<Rightarrow> string option \<Rightarrow> int \<Rightarrow> int \<Rightarrow> string option \<Rightarrow> string" where
  "mrna_line mrna_id sid lo hi sd =
     fmt sid @ [TAB] @ ''.'' @ [TAB] @ ''mRNA'' @ [TAB] @ str_int lo @ [TAB] @ str_int hi
       @ [TAB] @ ''.'' @ [TAB] @ fmt sd @ [TAB] @ ''.'' @ [TAB]
       @ ''ID='' @ mrna_id @ '';transcript_id='' @ mrna_id @ [NL]"

fun child_line :: "string \<Rightarrow> string option \<Rightarrow> feature \<Rightarrow> string" where
  "child_line mrna_id sid (ftype, s, e, score, sd, phase, attrs) =
     fmt sid @ [TAB] @ ''GEP'' @ [TAB] @ ftype @ [TAB] @ str_int s @ [TAB] @ str_int e
       @ [TAB] @ score @ [TAB] @ sd @ [TAB] @ phase @ [TAB]
       @ ''Parent='' @ mrna_id @ '';'' @ attrs @ [NL]"

fun write_children :: "string \<Rightarrow> string option \<Rightarrow> feature list \<Rightarrow> string list" where
  "write_children mrna_id sid [] = []"
| "write_children mrna_id sid (f # fs) =
     (if f_type f \<notin> set [''CDS'', ''exon''] then write_children mrna_id sid fs
      else child_line mrna_id sid f # write_children mrna_id sid fs)"

definition write_gff3 ::
  "string \<Rightarrow> string option \<Rightarrow> int \<Rightarrow> int \<Rightarrow> string option \<Rightarrow> feature list \<Rightarrow> string list" where
  "write_gff3 base sid lo hi sd feats =
     (let mrna_id = base @ ''-PA''
      in [''##gff-version 3'' @ [NL],
          ''##sequence-region '' @ fmt sid @ '' '' @ str_int lo @ '' '' @ str_int hi @ [NL],
          mrna_line mrna_id sid lo hi sd]
         @ write_children mrna_id sid feats
         @ [''###'' @ [NL]])"

section \<open>main\<close>

definition INPUT_DIR :: string where
  "INPUT_DIR = ''/Users/.../Apollo_Trackmaker/input''"

definition OUTPUT_DIR :: string where
  "OUTPUT_DIR = ''/Users/.../Apollo_Trackmaker/input''"

definition OUTPUT_EXT :: string where
  "OUTPUT_EXT = ''.gff3''"

text \<open>\<^verbatim>\<open>str.lower\<close> on code points below 256: A to Z, and U+00C0 to U+00DE except U+00D7.\<close>

definition lower_char :: "char \<Rightarrow> char" where
  "lower_char c =
     (let n = (of_char c :: nat)
      in if (65 \<le> n \<and> n \<le> 90) \<or> (192 \<le> n \<and> n \<le> 222 \<and> n \<noteq> 215)
         then char_of (n + 32) else c)"

definition lower :: "string \<Rightarrow> string" where
  "lower s = map lower_char s"

text \<open>\<^verbatim>\<open>s.rfind(c)\<close>: the last index of \<open>c\<close>, or -1.\<close>

definition rfind :: "string \<Rightarrow> char \<Rightarrow> int" where
  "rfind s c =
     (if c \<in> set s then int (length s) - 1 - int (length (takeWhile (\<lambda>x. x \<noteq> c) (rev s)))
      else - 1)"

text \<open>
  \<^verbatim>\<open>os.path.splitext\<close>: the extension starts at the last dot of the last path component,
  unless only dots come before it in that component.
\<close>

definition splitext :: "string \<Rightarrow> string \<times> string" where
  "splitext p =
     (let sepIndex = rfind p (CHR ''/'');
          dotIndex = rfind p (CHR ''.'')
      in if sepIndex < dotIndex \<and>
            (\<exists>i \<in> set [nat (sepIndex + 1) ..< nat dotIndex]. p ! i \<noteq> CHR ''.'')
         then (take (nat dotIndex) p, drop (nat dotIndex) p)
         else (p, []))"

text \<open>\<^verbatim>\<open>os.path.join(a, b)\<close> on a POSIX system.\<close>

definition path_join :: "string \<Rightarrow> string \<Rightarrow> string" where
  "path_join a b =
     (if startswith b ''/'' then b
      else if a = [] \<or> endswith a ''/'' then a @ b
      else a @ ''/'' @ b)"

text \<open>
  Iterating over an open text file: each line keeps its newline, the last line may lack
  one. The argument is the text of the file after Python's newline translation.
\<close>

fun file_lines :: "string \<Rightarrow> string list" where
  "file_lines [] = []"
| "file_lines (c # cs) =
     (if c = NL then [NL] # file_lines cs
      else (case file_lines cs of
              [] \<Rightarrow> [[c]]
            | l # ls \<Rightarrow> (c # l) # ls))"

text \<open>
  The directory is the list of its entries in the order \<^verbatim>\<open>os.listdir\<close> returns them,
  each with the text of the file; every entry that the filter keeps is taken to be a
  readable text file, and the output location to be writable. The loop of \<^verbatim>\<open>main\<close>
  carries the files written so far (path and text, in order) and stops at the first error,
  which is not caught. What \<^verbatim>\<open>main\<close> prints, and the creation of the output directory
  when the module is loaded, are left out; the input path serves only to open the file.
\<close>

type_synonym written = "(string \<times> string) list"

fun convert_files :: "written \<Rightarrow> (string \<times> string) list \<Rightarrow> written \<times> error option" where
  "convert_files out [] = (out, None)"
| "convert_files out ((fname, text) # rest) =
     (let base = fst (splitext fname);
          out_fname = base @ OUTPUT_EXT;
          out_path = path_join OUTPUT_DIR out_fname
      in case parse_gff2 (file_lines text) of
           Inl err \<Rightarrow> (out, Some err)
         | Inr (sid, lo, hi, sd, feats) \<Rightarrow>
             convert_files (out @ [(out_path, concat (write_gff3 base sid lo hi sd feats))])
               rest)"

definition main :: "(string \<times> string) list \<Rightarrow> written \<times> error option" where
  "main listing =
     (let files = filter (\<lambda>(f, text). endswith (lower f) ''.gff''
                                   \<and> \<not> endswith (lower f) OUTPUT_EXT) listing
      in if files = [] then ([], None) else convert_files [] files)"

section \<open>Notions used to state the properties\<close>

text \<open>
  A line is skipped when one of the two \<^verbatim>\<open>continue\<close> of the parser's loop is taken: it
  starts with \<^verbatim>\<open>track\<close>, \<^verbatim>\<open>##\<close> or \<^verbatim>\<open>#\<close>, or it has fewer than nine columns. The
  other lines are the feature lines of the file.
\<close>

definition skipped :: "string \<Rightarrow> bool" where
  "skipped line = (is_comment line \<or> length (columns line) < 9)"

definition feature_lines :: "string list \<Rightarrow> string list" where
  "feature_lines ls = filter (\<lambda>l. \<not> skipped l) ls"

text \<open>
  A feature line is well formed when it has exactly nine columns and its start and end
  fields are integer literals.
\<close>

definition well_formed :: "string \<Rightarrow> bool" where
  "well_formed line =
     (length (columns line) = 9
      \<and> py_int (columns line ! 3) \<noteq> None \<and> py_int (columns line ! 4) \<noteq> None)"

text \<open>All start coordinates, and all end coordinates, of the feature lines of a file.\<close>

definition start_coordinates :: "string list \<Rightarrow> int list" where
  "start_coordinates ls = List.map_filter (\<lambda>l. py_int (columns l ! 3)) (feature_lines ls)"

definition end_coordinates :: "string list \<Rightarrow> int list" where
  "end_coordinates ls = List.map_filter (\<lambda>l. py_int (columns l ! 4)) (feature_lines ls)"

text \<open>The features that the loop of \<^verbatim>\<open>write_gff3\<close> does not skip.\<close>

definition is_child :: "feature \<Rightarrow> bool" where
  "is_child f = (f_type f = ''CDS'' \<or> f_type f = ''exon'')"

section \<open>Example inputs\<close>

text \<open>
  Lines of GFF2 files, as iterating over the file yields them, used to run the model: two
  feature lines, a feature line whose start lies after its end, a line of ten columns, a
  line whose start field is not a number, and a line of five columns.
\<close>

definition line_cds :: string where
  \<open>line_cds = ''chr1'' @ [TAB] @ ''GEP'' @ [TAB] @ ''CDS'' @ [TAB] @ ''100'' @ [TAB] @ ''200''
     @ [TAB] @ ''.'' @ [TAB] @ ''+'' @ [TAB] @ ''0'' @ [TAB] @ ''gene_id "G1"'' @ [NL]\<close>


definition line_gene :: string where
  \<open>line_gene = ''chr1'' @ [TAB] @ ''GEP'' @ [TAB] @ ''gene'' @ [TAB] @ ''90'' @ [TAB] @ ''310''
     @ [TAB] @ ''.'' @ [TAB] @ ''+'' @ [TAB] @ ''.'' @ [TAB] @ ''gene_id "G1"'' @ [NL]\<close>

definition line_reversed :: string where
  \<open>line_reversed = ''chr1'' @ [TAB] @ ''GEP'' @ [TAB] @ ''CDS'' @ [TAB] @ ''200'' @ [TAB] @ ''100''
     @ [TAB] @ ''.'' @ [TAB] @ ''+'' @ [TAB] @ ''0'' @ [TAB] @ ''gene_id "G1"'' @ [NL]\<close>

definition line_ten_columns :: string where
  \<open>line_ten_columns = ''chr1'' @ [TAB] @ ''GEP'' @ [TAB] @ ''CDS'' @ [TAB] @ ''100'' @ [TAB] @ ''200''
     @ [TAB] @ ''.'' @ [TAB] @ ''+'' @ [TAB] @ ''0'' @ [TAB] @ ''gene_id "G1"'' @ [TAB] @ ''extra''
     @ [NL]\<close>


definition line_short :: string where
  "line_short = ''chr1'' @ [TAB] @ ''GEP'' @ [TAB] @ ''CDS'' @ [TAB] @ ''100'' @ [TAB] @ ''200''
     @ [NL]"

section \<open>Facts about the matcher\<close>

text \<open>What one result of each node looks like.\<close>

lemma rmatch_MinPlusD:
  "(rest, g') \<in> set (rmatch (MinPlus cls) inp g) \<Longrightarrow>
     \<exists>k. 1 \<le> k \<and> k \<le> length (takeWhile cls inp) \<and> rest = drop k inp \<and> g' = g"
  by (auto simp: less_Suc_eq_le)

lemma rmatch_MaxStarD:
  "(rest, g') \<in> set (rmatch (MaxStar cls) inp g) \<Longrightarrow>
     \<exists>k. k \<le> length (takeWhile cls inp) \<and> rest = drop k inp \<and> g' = g"
  by (auto simp del: upt_Suc simp: less_Suc_eq_le)

lemma rmatch_MaxPlusD:
  "(rest, g') \<in> set (rmatch (MaxPlus cls) inp g) \<Longrightarrow>
     \<exists>k. 1 \<le> k \<and> k \<le> length (takeWhile cls inp) \<and> rest = drop k inp \<and> g' = g"
  by (auto simp: less_Suc_eq_le)

lemma rmatch_SeqD:
  "(rest, g') \<in> set (rmatch (Seq r1 r2) inp g) \<Longrightarrow>
     \<exists>mid gm. (mid, gm) \<in> set (rmatch r1 inp g) \<and> (rest, g') \<in> set (rmatch r2 mid gm)"
  by auto

lemma rmatch_GroupD:
  "(rest, g') \<in> set (rmatch (Group n r) inp g) \<Longrightarrow>
     \<exists>g0. (rest, g0) \<in> set (rmatch r inp g)
        \<and> g' = g0(n := Some (take (length inp - length rest) inp))"
  by auto

lemma rmatch_LitD:
  "(rest, g') \<in> set (rmatch (Lit c) inp g) \<Longrightarrow> inp = c # rest \<and> g' = g"
  by (cases inp) (auto split: if_splits)

lemma rmatch_drop:
  "(rest, g') \<in> set (rmatch r inp g) \<Longrightarrow> \<exists>k\<le>length inp. rest = drop k inp"
proof (induction r arbitrary: inp g rest g')
  case (Lit c)
  from rmatch_LitD [OF Lit] have "rest = drop 1 inp" "1 \<le> length inp" by auto
  then show ?case by blast
next
  case (MinPlus cls)
  from rmatch_MinPlusD [OF MinPlus] obtain k where
    "k \<le> length (takeWhile cls inp)" "rest = drop k inp" by blast
  with length_takeWhile_le [of cls inp] have "k \<le> length inp \<and> rest = drop k inp" by auto
  then show ?case by blast
next
  case (MaxStar cls)
  from rmatch_MaxStarD [OF MaxStar] obtain k where
    "k \<le> length (takeWhile cls inp)" "rest = drop k inp" by blast
  with length_takeWhile_le [of cls inp] have "k \<le> length inp \<and> rest = drop k inp" by auto
  then show ?case by blast
next
  case (MaxPlus cls)
  from rmatch_MaxPlusD [OF MaxPlus] obtain k where
    "k \<le> length (takeWhile cls inp)" "rest = drop k inp" by blast
  with length_takeWhile_le [of cls inp] have "k \<le> length inp \<and> rest = drop k inp" by auto
  then show ?case by blast
next
  case (Group n r)
  from rmatch_GroupD [OF Group.prems] obtain g0 where "(rest, g0) \<in> set (rmatch r inp g)"
    by blast
  then show ?case by (rule Group.IH)
next
  case (Seq r1 r2)
  from rmatch_SeqD [OF Seq.prems] obtain mid gm where
    m1: "(mid, gm) \<in> set (rmatch r1 inp g)" and m2: "(rest, g') \<in> set (rmatch r2 mid gm)"
    by blast
  from Seq.IH(1) [OF m1] obtain k where k: "k \<le> length inp" "mid = drop k inp" by blast
  from Seq.IH(2) [OF m2] obtain j where j: "j \<le> length mid" "rest = drop j mid" by blast
  from k j have "j + k \<le> length inp \<and> rest = drop (j + k) inp" by auto
  then show ?case by blast
next
  case (Branch r1 r2)
  then show ?case by auto
qed

lemma rmatch_length: "(rest, g') \<in> set (rmatch r inp g) \<Longrightarrow> length rest \<le> length inp"
  by (drule rmatch_drop) auto

lemma rmatch_MinPlus_shorter:
  assumes "(rest, g') \<in> set (rmatch (MinPlus cls) inp g)"
  shows "length rest < length inp"
proof -
  from rmatch_MinPlusD [OF assms] obtain k where
    k: "1 \<le> k" "k \<le> length (takeWhile cls inp)" "rest = drop k inp" by blast
  from k(2) length_takeWhile_le [of cls inp] have "k \<le> length inp" by (rule order_trans)
  with k show ?thesis by simp
qed

lemma rmatch_Seq_Group_MinPlus_shorter:
  assumes "(rest, g') \<in> set (rmatch (Seq (Group n (MinPlus cls)) r) inp g)"
  shows "length rest < length inp"
proof -
  from rmatch_SeqD [OF assms] obtain mid gm where
    m1: "(mid, gm) \<in> set (rmatch (Group n (MinPlus cls)) inp g)"
    and m2: "(rest, g') \<in> set (rmatch r mid gm)"
    by blast
  from rmatch_GroupD [OF m1] obtain g0 where "(mid, g0) \<in> set (rmatch (MinPlus cls) inp g)"
    by blast
  then have "length mid < length inp" by (rule rmatch_MinPlus_shorter)
  with rmatch_length [OF m2] show ?thesis by simp
qed

lemma pattern_consumes:
  assumes "(rest, g') \<in> set (rmatch pattern inp g)"
  shows "length rest < length inp"
proof -
  from assms obtain n r where
    "(rest, g') \<in> set (rmatch (Seq (Group n (MinPlus nonspace)) r) inp g)"
    unfolding pattern_def rmatch.simps(7) set_append Un_iff by blast
  then show ?thesis by (rule rmatch_Seq_Group_MinPlus_shorter)
qed

lemma match_at_SomeD:
  "match_at inp = Some (rest, g) \<Longrightarrow> (rest, g) \<in> set (rmatch pattern inp (\<lambda>_. None))"
  unfolding match_at_def by (simp split: list.splits)

lemma match_at_shorter:
  assumes "match_at inp = Some (rest, g)"
  shows "length rest < length inp"
  using match_at_SomeD [OF assms] by (rule pattern_consumes)

text \<open>
  Whatever way the pattern matches, it either sets groups 1 and 2, or leaves group 1 unset
  and sets groups 3 and 4; the key group is never empty and is the text at the start of the
  match.
\<close>

lemma pattern_groups:
  assumes "(rest, g) \<in> set (rmatch pattern inp (\<lambda>_. None))"
  shows "(\<exists>k v. g 1 = Some k \<and> k \<noteq> [] \<and> take (length k) inp = k \<and> g 2 = Some v)
       \<or> (g 1 = None \<and>
           (\<exists>k v. g 3 = Some k \<and> k \<noteq> [] \<and> take (length k) inp = k \<and> g 4 = Some v))"
proof -
  let ?alt1 = "Seq (Group 1 (MinPlus nonspace))
         (Seq (MaxStar py_isspace)
           (Seq (Lit DQUOTE)
             (Seq (Group 2 (MaxStar notquote)) (Lit DQUOTE))))"
  let ?alt2 = "Seq (Group 3 (MinPlus nonspace))
         (Seq (Lit (CHR ''=''))
           (Group 4 (MaxPlus nonspace)))"
  from assms consider
    (a) "(rest, g) \<in> set (rmatch ?alt1 inp (\<lambda>_. None))"
    | (b) "(rest, g) \<in> set (rmatch ?alt2 inp (\<lambda>_. None))"
    unfolding pattern_def rmatch.simps(7) set_append Un_iff by blast
  then show ?thesis
  proof cases
    case a
    from rmatch_SeqD [OF a] obtain r1 g1 where
      k: "(r1, g1) \<in> set (rmatch (Group 1 (MinPlus nonspace)) inp (\<lambda>_. None))"
      and t1: "(rest, g) \<in> set (rmatch (Seq (MaxStar py_isspace)
           (Seq (Lit DQUOTE) (Seq (Group 2 (MaxStar notquote)) (Lit DQUOTE)))) r1 g1)"
      by blast
    from rmatch_GroupD [OF k] obtain g0 where
      k0: "(r1, g0) \<in> set (rmatch (MinPlus nonspace) inp (\<lambda>_. None))"
      and g1: "g1 = g0(1 := Some (take (length inp - length r1) inp))" by blast
    from rmatch_MinPlus_shorter [OF k0] have "take (length inp - length r1) inp \<noteq> []"
      by auto
    with g1 obtain key where key: "g1 1 = Some key" "key \<noteq> []" "take (length key) inp = key"
      by simp
    from rmatch_SeqD [OF t1] obtain r2 g2 where
      s2: "(r2, g2) \<in> set (rmatch (MaxStar py_isspace) r1 g1)"
      and t2: "(rest, g) \<in> set (rmatch
           (Seq (Lit DQUOTE) (Seq (Group 2 (MaxStar notquote)) (Lit DQUOTE))) r2 g2)"
      by blast
    from rmatch_MaxStarD [OF s2] have g2: "g2 = g1" by blast
    from rmatch_SeqD [OF t2] obtain r3 g3 where
      s3: "(r3, g3) \<in> set (rmatch (Lit DQUOTE) r2 g2)"
      and t3: "(rest, g) \<in> set (rmatch (Seq (Group 2 (MaxStar notquote)) (Lit DQUOTE)) r3 g3)"
      by blast
    from rmatch_LitD [OF s3] have g3: "g3 = g2" by blast
    from rmatch_SeqD [OF t3] obtain r4 g4 where
      s4: "(r4, g4) \<in> set (rmatch (Group 2 (MaxStar notquote)) r3 g3)"
      and t4: "(rest, g) \<in> set (rmatch (Lit DQUOTE) r4 g4)"
      by blast
    from rmatch_GroupD [OF s4] obtain g5 where
      s5: "(r4, g5) \<in> set (rmatch (MaxStar notquote) r3 g3)"
      and g4: "g4 = g5(2 := Some (take (length r3 - length r4) r3))" by blast
    from rmatch_MaxStarD [OF s5] have g5: "g5 = g3" by blast
    from rmatch_LitD [OF t4] have g: "g = g4" by blast
    from g g4 g5 g3 g2 key
    have "g 1 = Some key \<and> key \<noteq> [] \<and> take (length key) inp = key \<and> (\<exists>v. g 2 = Some v)"
      by simp
    then show ?thesis by blast
  next
    case b
    from rmatch_SeqD [OF b] obtain r1 g1 where
      k: "(r1, g1) \<in> set (rmatch (Group 3 (MinPlus nonspace)) inp (\<lambda>_. None))"
      and t1: "(rest, g) \<in> set (rmatch (Seq (Lit (CHR ''='')) (Group 4 (MaxPlus nonspace))) r1 g1)"
      by blast
    from rmatch_GroupD [OF k] obtain g0 where
      k0: "(r1, g0) \<in> set (rmatch (MinPlus nonspace) inp (\<lambda>_. None))"
      and g1: "g1 = g0(3 := Some (take (length inp - length r1) inp))" by blast
    from rmatch_MinPlusD [OF k0] have g0: "g0 = (\<lambda>_. None)" by blast
    from rmatch_MinPlus_shorter [OF k0] have "take (length inp - length r1) inp \<noteq> []"
      by auto
    with g1 g0 obtain key where
      key: "g1 3 = Some key" "key \<noteq> []" "take (length key) inp = key" "g1 1 = None"
      by simp
    from rmatch_SeqD [OF t1] obtain r2 g2 where
      s2: "(r2, g2) \<in> set (rmatch (Lit (CHR ''='')) r1 g1)"
      and t2: "(rest, g) \<in> set (rmatch (Group 4 (MaxPlus nonspace)) r2 g2)"
      by blast
    from rmatch_LitD [OF s2] have g2: "g2 = g1" by blast
    from rmatch_GroupD [OF t2] obtain g3 where
      s3: "(rest, g3) \<in> set (rmatch (MaxPlus nonspace) r2 g2)"
      and g: "g = g3(4 := Some (take (length r2 - length rest) r2))" by blast
    from rmatch_MaxPlusD [OF s3] have g3: "g3 = g2" by blast
    from g g3 g2 key
    have "g 1 = None \<and> g 3 = Some key \<and> key \<noteq> [] \<and> take (length key) inp = key
        \<and> (\<exists>v. g 4 = Some v)"
      by simp
    then show ?thesis by blast
  qed
qed

lemma finditer_from_past: "length s < pos \<Longrightarrow> finditer_from s pos = []"
  by (subst finditer_from.simps) simp

lemma finditer_from_None:
  "\<not> length s < pos \<Longrightarrow> match_at (drop pos s) = None \<Longrightarrow>
     finditer_from s pos = finditer_from s (Suc pos)"
  by (subst finditer_from.simps) simp

lemma match_at_end:
  assumes "match_at (drop pos s) = Some (rest, g)"
  shows "pos < length s - length rest \<and> length s - length rest \<le> length s
       \<and> rest = drop (length s - length rest) s"
proof -
  from rmatch_drop [OF match_at_SomeD [OF assms]] obtain k where
    k: "k \<le> length (drop pos s)" "rest = drop k (drop pos s)" by blast
  from match_at_shorter [OF assms] have "length rest < length (drop pos s)" .
  with k show ?thesis by (auto simp: add.commute)
qed

lemma finditer_from_Some:
  assumes "match_at (drop pos s) = Some (rest, g)"
  shows "finditer_from s pos =
           \<lparr>m_start = pos, m_end = length s - length rest, m_group = g\<rparr>
           # finditer_from s (length s - length rest)"
proof -
  from match_at_end [OF assms] have lt: "pos < length s - length rest" by blast
  then have "\<not> length s < pos" by simp
  with assms lt show ?thesis by (subst finditer_from.simps) (simp add: Let_def)
qed

lemma finditer_from_member:
  "m \<in> set (finditer_from s pos) \<Longrightarrow>
     pos \<le> m_start m \<and> m_start m < m_end m \<and> m_end m \<le> length s
     \<and> match_at (drop (m_start m) s) = Some (drop (m_end m) s, m_group m)"
proof (induction s pos rule: finditer_from.induct)
  case (1 s pos)
  show ?case
  proof (cases "length s < pos")
    case True
    with "1.prems" show ?thesis by (simp add: finditer_from_past)
  next
    case False
    show ?thesis
    proof (cases "match_at (drop pos s)")
      case None
      with False "1.prems" have "m \<in> set (finditer_from s (Suc pos))"
        by (simp add: finditer_from_None)
      from "1.IH"(1) [OF False None this] show ?thesis by simp
    next
      case (Some x)
      obtain rest g where x: "x = (rest, g)" by (cases x)
      let ?e = "length s - length rest"
      from Some x have ma: "match_at (drop pos s) = Some (rest, g)" by simp
      note e = match_at_end [OF ma]
      from "1.prems" finditer_from_Some [OF ma] consider
        (hd) "m = \<lparr>m_start = pos, m_end = ?e, m_group = g\<rparr>"
        | (tl) "m \<in> set (finditer_from s ?e)" by auto
      then show ?thesis
      proof cases
        case hd
        with e ma show ?thesis by simp
      next
        case tl
        from e have "(if pos < ?e then ?e else Suc pos) = ?e" by simp
        with tl have "m \<in> set (finditer_from s (if pos < ?e then ?e else Suc pos))" by simp
        from "1.IH"(2) [OF False Some x [symmetric] refl this] e show ?thesis by simp
      qed
    qed
  qed
qed

lemma finditer_from_sorted:
  "sorted_wrt (\<lambda>a b. m_end a \<le> m_start b) (finditer_from s pos)"
proof (induction s pos rule: finditer_from.induct)
  case (1 s pos)
  show ?case
  proof (cases "length s < pos")
    case True
    then show ?thesis by (simp add: finditer_from_past)
  next
    case False
    show ?thesis
    proof (cases "match_at (drop pos s)")
      case None
      from "1.IH"(1) [OF False None] False None show ?thesis
        by (simp add: finditer_from_None)
    next
      case (Some x)
      obtain rest g where x: "x = (rest, g)" by (cases x)
      let ?e = "length s - length rest"
      from Some x have ma: "match_at (drop pos s) = Some (rest, g)" by simp
      note e = match_at_end [OF ma]
      from e have eq: "(if pos < ?e then ?e else Suc pos) = ?e" by simp
      from "1.IH"(2) [OF False Some x [symmetric] refl] eq
      have "sorted_wrt (\<lambda>a b. m_end a \<le> m_start b) (finditer_from s ?e)" by simp
      moreover have "\<forall>m\<in>set (finditer_from s ?e). ?e \<le> m_start m"
        using finditer_from_member by blast
      ultimately show ?thesis by (simp add: finditer_from_Some [OF ma])
    qed
  qed
qed

lemma key_val_defined:
  assumes "m \<in> set (finditer s)"
  shows "\<exists>key val. key_val m = (Some key, Some val) \<and> key \<noteq> []
           \<and> take (length key) (drop (m_start m) s) = key"
proof -
  from assms have "m \<in> set (finditer_from s 0)" by (simp add: finditer_def)
  from finditer_from_member [OF this]
  have "match_at (drop (m_start m) s) = Some (drop (m_end m) s, m_group m)" by blast
  from pattern_groups [OF match_at_SomeD [OF this]] show ?thesis
    by (auto simp: key_val_def truthy_def)
qed

text \<open>A string with no double quote and no equals sign has no match.\<close>

lemma rmatch_set: "(rest, g') \<in> set (rmatch r inp g) \<Longrightarrow> set rest \<subseteq> set inp"
  by (drule rmatch_drop) (auto dest: in_set_dropD)

lemma rmatch_Seq_Lit_mem:
  assumes "(rest, g') \<in> set (rmatch (Seq (Lit c) r) inp g)"
  shows "c \<in> set inp"
proof -
  from rmatch_SeqD [OF assms] obtain mid gm where "(mid, gm) \<in> set (rmatch (Lit c) inp g)"
    by blast
  from rmatch_LitD [OF this] show ?thesis by simp
qed

lemma pattern_needs_quote_or_eq:
  assumes "(rest, g) \<in> set (rmatch pattern inp g0)"
  shows "DQUOTE \<in> set inp \<or> CHR ''='' \<in> set inp"
proof -
  let ?q = "Seq (Lit DQUOTE) (Seq (Group 2 (MaxStar notquote)) (Lit DQUOTE))"
  let ?e = "Seq (Lit (CHR ''='')) (Group 4 (MaxPlus nonspace))"
  from assms consider
    (a) "(rest, g) \<in> set (rmatch (Seq (Group 1 (MinPlus nonspace))
                                   (Seq (MaxStar py_isspace) ?q)) inp g0)"
    | (b) "(rest, g) \<in> set (rmatch (Seq (Group 3 (MinPlus nonspace)) ?e) inp g0)"
    unfolding pattern_def rmatch.simps(7) set_append Un_iff by blast
  then show ?thesis
  proof cases
    case a
    from rmatch_SeqD [OF a] obtain r1 g1 where
      s1: "(r1, g1) \<in> set (rmatch (Group 1 (MinPlus nonspace)) inp g0)"
      and t1: "(rest, g) \<in> set (rmatch (Seq (MaxStar py_isspace) ?q) r1 g1)" by blast
    from rmatch_SeqD [OF t1] obtain r2 g2 where
      s2: "(r2, g2) \<in> set (rmatch (MaxStar py_isspace) r1 g1)"
      and t2: "(rest, g) \<in> set (rmatch ?q r2 g2)" by blast
    from rmatch_Seq_Lit_mem [OF t2] rmatch_set [OF s2] rmatch_set [OF s1]
    show ?thesis by blast
  next
    case b
    from rmatch_SeqD [OF b] obtain r1 g1 where
      s1: "(r1, g1) \<in> set (rmatch (Group 3 (MinPlus nonspace)) inp g0)"
      and t1: "(rest, g) \<in> set (rmatch ?e r1 g1)" by blast
    from rmatch_Seq_Lit_mem [OF t1] rmatch_set [OF s1] show ?thesis by blast
  qed
qed

lemma match_at_None:
  assumes "DQUOTE \<notin> set inp" and "CHR ''='' \<notin> set inp"
  shows "match_at inp = None"
proof (cases "match_at inp")
  case None
  then show ?thesis .
next
  case (Some x)
  obtain rest g where "x = (rest, g)" by (cases x)
  with Some have "match_at inp = Some (rest, g)" by simp
  from pattern_needs_quote_or_eq [OF match_at_SomeD [OF this]] assms show ?thesis by blast
qed

lemma finditer_from_no_match:
  "DQUOTE \<notin> set s \<Longrightarrow> CHR ''='' \<notin> set s \<Longrightarrow> finditer_from s pos = []"
proof (induction s pos rule: finditer_from.induct)
  case (1 s pos)
  show ?case
  proof (cases "length s < pos")
    case True
    then show ?thesis by (rule finditer_from_past)
  next
    case False
    from "1.prems" have "DQUOTE \<notin> set (drop pos s)" "CHR ''='' \<notin> set (drop pos s)"
      by (auto dest: in_set_dropD)
    then have none: "match_at (drop pos s) = None" by (rule match_at_None)
    from "1.IH"(1) [OF False none "1.prems"] finditer_from_None [OF False none]
    show ?thesis by simp
  qed
qed

lemma convert_attributes_no_match:
  "DQUOTE \<notin> set s \<Longrightarrow> CHR ''='' \<notin> set s \<Longrightarrow> convert_attributes s = []"
  by (simp add: convert_attributes_def finditer_def finditer_from_no_match)

lemma finditer_member:
  "m \<in> set (finditer s) \<Longrightarrow> m_start m < m_end m \<and> m_end m \<le> length s"
  unfolding finditer_def by (drule finditer_from_member) simp

lemma render_key_val: "key_val m = (Some key, Some val) \<Longrightarrow> render m = key @ ''='' @ val"
  by (simp add: render_def)

lemma example_pairs:
  \<open>map (\<lambda>m. (m_start m, m_end m, key_val m)) (finditer ''gene_id "G1"; transcript_id "T1"'')
     = [(0, 12, Some ''gene_id'', Some ''G1''), (14, 32, Some ''transcript_id'', Some ''T1'')]\<close>
  by code_simp

lemma example_order:
  \<open>convert_attributes ''gene_id "G1"; transcript_id "T1"'' = ''gene_id=G1;transcript_id=T1''\<close>
  by code_simp

lemma example_empty_value: \<open>convert_attributes ''key ""'' = ''key=''\<close>
  by code_simp

lemma example_empty: "convert_attributes [] = []"
  by code_simp

section \<open>Facts about the parser\<close>

text \<open>One turn of the loop, by the kind of line.\<close>

lemma parse_line_skipped: "skipped l \<Longrightarrow> parse_line st l = Inr st"
  by (auto simp: skipped_def parse_line_def Let_def)

lemma parse_line_feature:
  assumes "\<not> skipped l" and "length (columns l) = 9"
    and "py_int (columns l ! 3) = Some a" and "py_int (columns l ! 4) = Some b"
  shows "parse_line st l =
           Inr \<lparr>features = features st @
                   [(columns l ! 2, a, b, columns l ! 5, columns l ! 6, columns l ! 7,
                     convert_attributes (columns l ! 8))],
                starts = starts st @ [a],
                ends = ends st @ [b],
                seqid = Some (columns l ! 0),
                strand = Some (columns l ! 6)\<rparr>"
  using assms by (simp add: skipped_def parse_line_def Let_def)

lemma parse_line_too_many:
  "\<not> is_comment l \<Longrightarrow> 9 < length (columns l) \<Longrightarrow>
     parse_line st l = Inl (ValueError TooManyValuesToUnpack)"
  by (simp add: parse_line_def Let_def)

lemma parse_line_bad_start:
  "\<not> is_comment l \<Longrightarrow> length (columns l) = 9 \<Longrightarrow> py_int (columns l ! 3) = None \<Longrightarrow>
     parse_line st l = Inl (ValueError (InvalidLiteralForInt (columns l ! 3)))"
  by (simp add: parse_line_def Let_def)

lemma parse_line_bad_end:
  "\<not> is_comment l \<Longrightarrow> length (columns l) = 9 \<Longrightarrow> py_int (columns l ! 3) = Some a \<Longrightarrow>
     py_int (columns l ! 4) = None \<Longrightarrow>
     parse_line st l = Inl (ValueError (InvalidLiteralForInt (columns l ! 4)))"
  by (simp add: parse_line_def Let_def)

lemma parse_line_ill_formed:
  assumes "\<not> skipped l" and "\<not> well_formed l"
  shows "\<exists>e. parse_line st l = Inl e"
proof -
  from assms(1) have nc: "\<not> is_comment l" and len: "9 \<le> length (columns l)"
    by (auto simp: skipped_def)
  show ?thesis
  proof (cases "length (columns l) = 9")
    case False
    with len have "9 < length (columns l)" by simp
    from parse_line_too_many [OF nc this] show ?thesis by blast
  next
    case True
    show ?thesis
    proof (cases "py_int (columns l ! 3)")
      case None
      from parse_line_bad_start [OF nc True None] show ?thesis by blast
    next
      case (Some a)
      with assms(2) True have "py_int (columns l ! 4) = None" by (simp add: well_formed_def)
      from parse_line_bad_end [OF nc True Some this] show ?thesis by blast
    qed
  qed
qed

lemma parse_lines_append:
  "parse_lines st (xs @ ys) =
     (case parse_lines st xs of Inl err \<Rightarrow> Inl err | Inr st' \<Rightarrow> parse_lines st' ys)"
  by (induction xs arbitrary: st) (auto split: sum.splits)

lemma feature_lines_Cons:
  "feature_lines (l # ls) = (if skipped l then feature_lines ls else l # feature_lines ls)"
  by (simp add: feature_lines_def)

lemma start_coordinates_skipped: "skipped l \<Longrightarrow> start_coordinates (l # ls) = start_coordinates ls"
  by (simp add: start_coordinates_def feature_lines_Cons)

lemma end_coordinates_skipped: "skipped l \<Longrightarrow> end_coordinates (l # ls) = end_coordinates ls"
  by (simp add: end_coordinates_def feature_lines_Cons)

lemma start_coordinates_feature:
  "\<not> skipped l \<Longrightarrow> py_int (columns l ! 3) = Some a \<Longrightarrow>
     start_coordinates (l # ls) = a # start_coordinates ls"
  by (simp add: start_coordinates_def feature_lines_Cons map_filter_simps)

lemma end_coordinates_feature:
  "\<not> skipped l \<Longrightarrow> py_int (columns l ! 4) = Some b \<Longrightarrow>
     end_coordinates (l # ls) = b # end_coordinates ls"
  by (simp add: end_coordinates_def feature_lines_Cons map_filter_simps)


lemma parse_lines_result:
  assumes "parse_lines st ls = Inr st'"
  shows "(\<forall>l\<in>set ls. \<not> skipped l \<longrightarrow> well_formed l)
       \<and> starts st' = starts st @ start_coordinates ls
       \<and> ends st' = ends st @ end_coordinates ls
       \<and> map f_start (features st') = map f_start (features st) @ start_coordinates ls
       \<and> map f_end (features st') = map f_end (features st) @ end_coordinates ls"
  using assms
proof (induction ls arbitrary: st)
  case Nil
  then show ?case by (simp add: start_coordinates_def end_coordinates_def feature_lines_def map_filter_simps)
next
  case (Cons l ls)
  show ?case
  proof (cases "skipped l")
    case True
    with Cons.prems have "parse_lines st ls = Inr st'" by (simp add: parse_line_skipped)
    from Cons.IH [OF this] True show ?thesis
      by (simp add: start_coordinates_skipped end_coordinates_skipped)
  next
    case False
    have wf: "well_formed l"
    proof (rule ccontr)
      assume "\<not> well_formed l"
      from parse_line_ill_formed [OF False this, of st] Cons.prems show False by auto
    qed
    then obtain a b where ab: "py_int (columns l ! 3) = Some a" "py_int (columns l ! 4) = Some b"
      and len: "length (columns l) = 9"
      by (auto simp: well_formed_def)
    note step = parse_line_feature [OF False len ab, of st]
    with Cons.prems obtain st1 where st1: "parse_line st l = Inr st1" "parse_lines st1 ls = Inr st'"
      by simp
    from st1(1) step have
      "starts st1 = starts st @ [a]" "ends st1 = ends st @ [b]"
      "map f_start (features st1) = map f_start (features st) @ [a]"
      "map f_end (features st1) = map f_end (features st) @ [b]"
      by auto
    with Cons.IH [OF st1(2)] wf False ab show ?thesis
      by (simp add: start_coordinates_feature end_coordinates_feature)
  qed
qed

lemma foldl_min: "foldl (\<lambda>best y. if y < best then y else best) (x::int) xs = Min (set (x # xs))"
proof (induction xs arbitrary: x)
  case Nil
  show ?case by simp
next
  case (Cons y ys)
  have "Min (set ((if y < x then y else x) # ys)) = Min (set (x # y # ys))"
    by (cases "ys = []") (auto simp: min_def)
  with Cons show ?case by simp
qed

lemma foldl_max: "foldl (\<lambda>best y. if best < y then y else best) (x::int) xs = Max (set (x # xs))"
proof (induction xs arbitrary: x)
  case Nil
  show ?case by simp
next
  case (Cons y ys)
  have "Max (set ((if x < y then y else x) # ys)) = Max (set (x # y # ys))"
    by (cases "ys = []") (auto simp: max_def)
  with Cons show ?case by simp
qed

lemma py_min_Inr: "xs \<noteq> [] \<Longrightarrow> py_min xs = Inr (Min (set xs))"
  by (cases xs) (simp_all add: py_min_def foldl_min del: foldl_Cons)

lemma py_max_Inr: "xs \<noteq> [] \<Longrightarrow> py_max xs = Inr (Max (set xs))"
  by (cases xs) (simp_all add: py_max_def foldl_max del: foldl_Cons)

lemma py_min_Nil: "py_min [] = Inl (ValueError EmptySequence)"
  by (simp add: py_min_def)

text \<open>What \<^verbatim>\<open>parse_gff2\<close> returns, from the state the loop ends in.\<close>

lemma parse_gff2_Inr:
  assumes "parse_lines init_state ls = Inr st" and "starts st \<noteq> []"
  shows "parse_gff2 ls =
           Inr (seqid st, Min (set (start_coordinates ls)), Max (set (end_coordinates ls)),
                strand st, features st)"
proof -
  from parse_lines_result [OF assms(1)] have
    s: "starts st = start_coordinates ls" and e: "ends st = end_coordinates ls"
    by (simp_all add: init_state_def)
  from s e have "length (starts st) = length (map f_start (features st))"
    "length (ends st) = length (map f_end (features st))"
    using parse_lines_result [OF assms(1)] by (simp_all add: init_state_def)
  with assms(2) have "ends st \<noteq> []" by auto
  with assms s e show ?thesis
    by (simp add: parse_gff2_def py_min_Inr py_max_Inr)
qed

lemma parse_gff2_InrD:
  assumes "parse_gff2 ls = Inr (sid, lo, hi, sd, feats)"
  shows "\<exists>st. parse_lines init_state ls = Inr st \<and> starts st \<noteq> []
           \<and> sid = seqid st \<and> sd = strand st \<and> feats = features st"
  using assms
  by (auto simp: parse_gff2_def py_min_def py_max_def split: sum.splits list.splits)



lemma parse_lines_all_skipped: "\<forall>l\<in>set ls. skipped l \<Longrightarrow> parse_lines st ls = Inr st"
  by (induction ls) (simp_all add: parse_line_skipped)

lemma parse_gff2_all_skipped:
  "\<forall>l\<in>set ls. skipped l \<Longrightarrow> parse_gff2 ls = Inl (ValueError EmptySequence)"
  by (simp add: parse_gff2_def parse_lines_all_skipped init_state_def py_min_Nil)

lemma convert_files_fails:
  "parse_gff2 (file_lines text) = Inl err \<Longrightarrow>
     convert_files out ((fname, text) # rest) = (out, Some err)"
  by (simp add: Let_def)

lemma endswith_last: "endswith s p \<Longrightarrow> p \<noteq> [] \<Longrightarrow> last s = last p"
  unfolding endswith_def
  by (metis append_take_drop_id last_appendR)

lemma gff_not_output_ext: "endswith s ''.gff'' \<Longrightarrow> \<not> endswith s OUTPUT_EXT"
proof
  assume "endswith s ''.gff''" and "endswith s OUTPUT_EXT"
  from endswith_last [OF this(1)] endswith_last [OF this(2)] show False
    by (simp add: OUTPUT_EXT_def)
qed

lemma main_first_file:
  "endswith (lower fname) ''.gff'' \<Longrightarrow> parse_gff2 (file_lines text) = Inl err \<Longrightarrow>
     main ((fname, text) # rest) = ([], Some err)"
  by (simp add: main_def gff_not_output_ext Let_def)

lemma parse_lines_fails:
  assumes "\<And>st. \<exists>e. parse_line st l = Inl e"
  shows "\<exists>e. parse_lines st (pre @ l # post) = Inl e"
proof (cases "parse_lines st pre")
  case (Inl e)
  then show ?thesis by (simp add: parse_lines_append)
next
  case (Inr st')
  from assms [of st'] obtain e where "parse_line st' l = Inl e" by blast
  with Inr show ?thesis by (simp add: parse_lines_append)
qed

lemma parse_gff2_fails:
  assumes "\<And>st. \<exists>e. parse_line st l = Inl e"
  shows "\<exists>c. parse_gff2 (pre @ l # post) = Inl (ValueError c)"
proof -
  from parse_lines_fails [OF assms] obtain e where
    "parse_lines init_state (pre @ l # post) = Inl e" by blast
  then have "parse_gff2 (pre @ l # post) = Inl e" by (simp add: parse_gff2_def)
  then show ?thesis by (cases e) blast
qed

lemma parse_gff2_fails_at:
  assumes "parse_lines init_state pre = Inr st'" and "parse_line st' l = Inl e"
  shows "parse_gff2 (pre @ l # post) = Inl e"
  using assms by (simp add: parse_gff2_def parse_lines_append)


lemma parse_gff2_no_nine_column_line:
  assumes "\<forall>l\<in>set ls. is_comment l \<or> length (columns l) \<noteq> 9"
  shows "\<exists>c. parse_gff2 ls = Inl (ValueError c)"
proof (cases "\<forall>l\<in>set ls. skipped l")
  case True
  from parse_gff2_all_skipped [OF True] show ?thesis by blast
next
  case False
  then obtain l where l: "l \<in> set ls" "\<not> skipped l" by blast
  with assms have nc: "\<not> is_comment l" and many: "9 < length (columns l)"
    by (auto simp: skipped_def)
  have fails: "\<exists>e. parse_line st l = Inl e" for st
    using parse_line_too_many [OF nc many, of st] by blast
  from l(1) obtain pre post where "ls = pre @ l # post" by (auto dest: split_list)
  with parse_gff2_fails [OF fails, of pre post] show ?thesis by simp
qed

section \<open>Facts about the emitter\<close>

text \<open>
  Splitting at a separator gives back a field that does not contain it; the lines written
  for the features are the lines of the features of type CDS or exon, in order.
\<close>

lemma split_on_nonempty: "split_on c s \<noteq> []"
  by (induction s) (auto split: list.splits)

lemma split_on_field: "c \<notin> set a \<Longrightarrow> split_on c (a @ c # b) = a # split_on c b"
proof (induction a)
  case Nil
  show ?case by simp
next
  case (Cons x a)
  then show ?case by (auto split: list.splits)
qed

lemma write_children_filter:
  "write_children mrna_id sid feats = map (child_line mrna_id sid) (filter is_child feats)"
  by (induction feats) (auto simp: is_child_def)

lemma child_lines_of_output:
  "butlast (drop 3 (write_gff3 base sid lo hi sd feats))
     = map (child_line (base @ ''-PA'') sid) (filter is_child feats)"
  by (simp add: write_gff3_def write_children_filter butlast_append Let_def numeral_3_eq_3)

lemma child_line_fields:
  "child_line mrna_id sid f =
     fmt sid @ [TAB] @ ''GEP'' @ [TAB] @ f_type f @ [TAB] @ str_int (f_start f) @ [TAB]
       @ str_int (f_end f) @ [TAB] @ f_score f @ [TAB] @ f_strand f @ [TAB] @ f_phase f
       @ [TAB] @ ''Parent='' @ mrna_id @ '';'' @ f_attrs f @ [NL]"
  by (cases f) simp

lemma child_line_type_column:
  assumes "is_child f" and "TAB \<notin> set (fmt sid)"
  shows "split_on TAB (child_line mrna_id sid f) ! 2 = f_type f"
proof -
  obtain ftype s e score sd phase attrs where f: "f = (ftype, s, e, score, sd, phase, attrs)"
    by (cases f)
  from assms(1) f have t: "TAB \<notin> set ftype" by (auto simp: is_child_def)
  have g: "TAB \<notin> set ''GEP''" by simp
  let ?rest = "str_int s @ [TAB] @ str_int e @ [TAB] @ score @ [TAB] @ sd @ [TAB] @ phase
       @ [TAB] @ ''Parent='' @ mrna_id @ '';'' @ attrs @ [NL]"
  have "child_line mrna_id sid f = fmt sid @ TAB # (''GEP'' @ TAB # (ftype @ TAB # ?rest))"
    by (simp add: f)
  then have "split_on TAB (child_line mrna_id sid f)
               = fmt sid # ''GEP'' # ftype # split_on TAB ?rest"
    by (simp only: split_on_field [OF assms(2)] split_on_field [OF g] split_on_field [OF t])
  then show ?thesis by (simp add: f)
qed

section \<open>The attribute translator\<close>

text \<open>
  Claim C4. Attribute translation preserves order. For every attribute string the output
  of \<^verbatim>\<open>convert_attributes\<close> is the matches of the scan, each rendered as key=value, joined
  with a semicolon in the order of the scan; the scan goes from left to right: every match
  is a non-empty span of the string that ends before the next one starts, and its key is
  the text found at its start. In particular \<^verbatim>\<open>gene_id "G1"; transcript_id "T1"\<close> becomes
  \<^verbatim>\<open>gene_id=G1;transcript_id=T1\<close>.
\<close>

theorem convert_attributes_order_preserving:
  \<open>convert_attributes s = join '';'' (map render (finditer s))
   \<and> sorted_wrt (\<lambda>a b. m_end a \<le> m_start b) (finditer s)
   \<and> (\<forall>m\<in>set (finditer s).
         m_start m < m_end m \<and> m_end m \<le> length s
         \<and> (\<exists>key val. key_val m = (Some key, Some val)
               \<and> take (length key) (drop (m_start m) s) = key
               \<and> render m = key @ ''='' @ val))
   \<and> convert_attributes ''gene_id "G1"; transcript_id "T1"'' = ''gene_id=G1;transcript_id=T1''\<close>
proof -
  have "sorted_wrt (\<lambda>a b. m_end a \<le> m_start b) (finditer s)"
    unfolding finditer_def by (rule finditer_from_sorted)
  moreover have "\<forall>m\<in>set (finditer s).
         m_start m < m_end m \<and> m_end m \<le> length s
         \<and> (\<exists>key val. key_val m = (Some key, Some val)
               \<and> take (length key) (drop (m_start m) s) = key
               \<and> render m = key @ ''='' @ val)"
  proof
    fix m assume m: "m \<in> set (finditer s)"
    from key_val_defined [OF m] obtain key val where
      kv: "key_val m = (Some key, Some val)" "take (length key) (drop (m_start m) s) = key"
      by blast
    with render_key_val [OF kv(1)] finditer_member [OF m]
    show "m_start m < m_end m \<and> m_end m \<le> length s
         \<and> (\<exists>key val. key_val m = (Some key, Some val)
               \<and> take (length key) (drop (m_start m) s) = key
               \<and> render m = key @ ''='' @ val)" by blast
  qed
  ultimately show ?thesis
    using example_order by (simp add: convert_attributes_def)
qed

theorem convert_attributes_order_preserving_witness:
  \<open>convert_attributes ''a=b c "d e"'' = join '';'' (map render (finditer ''a=b c "d e"''))
   \<and> convert_attributes ''a=b c "d e"'' = ''a=b;c=d e''
   \<and> map m_start (finditer ''a=b c "d e"'') = [0, 4]
   \<and> map m_end (finditer ''a=b c "d e"'') = [3, 11]\<close>
proof -
  have starts: \<open>map m_start (finditer ''a=b c "d e"'') = [0, 4]\<close>
    by code_simp
  have ends: \<open>map m_end (finditer ''a=b c "d e"'') = [3, 11]\<close>
    by code_simp
  have out: \<open>convert_attributes ''a=b c "d e"'' = ''a=b;c=d e''\<close>
    by code_simp
  from convert_attributes_order_preserving [of \<open>''a=b c "d e"''\<close>] starts ends out
  show ?thesis by blast
qed

text \<open>
  Claim C5. \<^verbatim>\<open>convert_attributes\<close> never raises. Nothing in its body can fail on a string,
  so the model has no error result; what could go wrong is a group read while unset, and
  for every input every match has its key and its value set. Text that matches neither form
  is left out: a string with no double quote and no equals sign gives the empty output. The
  empty string gives the empty output, and \<^verbatim>\<open>key ""\<close> gives \<^verbatim>\<open>key=\<close>.
\<close>

theorem convert_attributes_never_raises:
  \<open>(\<forall>m\<in>set (finditer s). \<exists>key val. key_val m = (Some key, Some val))
   \<and> (DQUOTE \<notin> set s \<and> CHR ''='' \<notin> set s \<longrightarrow> convert_attributes s = [])
   \<and> convert_attributes [] = []
   \<and> convert_attributes ''key ""'' = ''key=''\<close>
  using key_val_defined [of _ s] convert_attributes_no_match [of s]
    example_empty example_empty_value
  by blast

theorem convert_attributes_never_raises_witness:
  \<open>convert_attributes ''no pairs here; at all'' = []
   \<and> map key_val (finditer ''k "" junk x=1'') = [(Some ''k'', Some []), (Some ''x'', Some ''1'')]
   \<and> convert_attributes ''k "" junk x=1'' = ''k=;x=1''\<close>
proof -
  have a: \<open>DQUOTE \<notin> set ''no pairs here; at all'' \<and> CHR ''='' \<notin> set ''no pairs here; at all''\<close>
    by simp
  have b: \<open>map key_val (finditer ''k "" junk x=1'')
             = [(Some ''k'', Some []), (Some ''x'', Some ''1'')]\<close>
    by code_simp
  have c: \<open>convert_attributes ''k "" junk x=1'' = ''k=;x=1''\<close>
    by code_simp
  from convert_attributes_never_raises [of \<open>''no pairs here; at all''\<close>] a b c
  show ?thesis by blast
qed

section \<open>The parser\<close>





text \<open>
  Claim C7, as stated, fails: the parser does not compare the start of a record with its
  end, so a file whose only feature line runs from 200 to 100 gets the span from 200 to
  100.
\<close>
theorem span_start_after_end_counterexample:
  "parse_gff2 [line_reversed] =
     Inr (Some ''chr1'', 200, 100, Some ''+'',
        [(''CDS'', 200, 100, ''.'', ''+'', ''0'', ''gene_id=G1'')])
   \<and> \<not> (200::int) \<le> 100"
proof -
  have "parse_gff2 [line_reversed] =
     Inr (Some ''chr1'', 200, 100, Some ''+'',
        [(''CDS'', 200, 100, ''.'', ''+'', ''0'', ''gene_id=G1'')])"
    by code_simp
  then show ?thesis by simp
qed

text \<open>
  Claim C7, amended. Whenever \<^verbatim>\<open>parse_gff2\<close> returns and at least one of the returned
  features has its start at or before its end, the start of the span is at or before its
  end.
\<close>

theorem span_start_le_end:
  assumes "parse_gff2 ls = Inr (sid, lo, hi, sd, feats)"
    and "f \<in> set feats" and "f_start f \<le> f_end f"
  shows "lo \<le> hi"
proof -
  from parse_gff2_InrD [OF assms(1)] obtain st where
    st: "parse_lines init_state ls = Inr st" "starts st \<noteq> []" "feats = features st" by blast
  note res = parse_lines_result [OF st(1)]
  from res st(3) have s: "start_coordinates ls = map f_start feats"
    and e: "end_coordinates ls = map f_end feats" by (simp_all add: init_state_def)
  from parse_gff2_Inr [OF st(1) st(2)] assms(1) s e
  have lo: "lo = Min (set (map f_start feats))" and hi: "hi = Max (set (map f_end feats))"
    by simp_all
  from assms(2) have "lo \<le> f_start f" unfolding lo by (intro Min_le) auto
  moreover from assms(2) have "f_end f \<le> hi" unfolding hi by (intro Max_ge) auto
  ultimately show ?thesis using assms(3) by linarith
qed

theorem span_start_le_end_witness:
  "parse_gff2 [line_cds, line_reversed] =
     Inr (Some ''chr1'', 100, 200, Some ''+'',
        [(''CDS'', 100, 200, ''.'', ''+'', ''0'', ''gene_id=G1''),
         (''CDS'', 200, 100, ''.'', ''+'', ''0'', ''gene_id=G1'')])
   \<and> (100::int) \<le> 200"
proof -
  have r: "parse_gff2 [line_cds, line_reversed] =
     Inr (Some ''chr1'', 100, 200, Some ''+'',
        [(''CDS'', 100, 200, ''.'', ''+'', ''0'', ''gene_id=G1''),
         (''CDS'', 200, 100, ''.'', ''+'', ''0'', ''gene_id=G1'')])"
    by code_simp
  from span_start_le_end [OF r, of "(''CDS'', 100, 200, ''.'', ''+'', ''0'', ''gene_id=G1'')"] r
  show ?thesis by simp
qed

text \<open>
  Claim C8, as stated, fails: a file may have no line of nine columns and still have a
  feature line. A file whose only line has ten columns has no valid nine-column line, and
  \<^verbatim>\<open>parse_gff2\<close> fails on it in the unpacking of that line, before \<^verbatim>\<open>min\<close> is reached.
\<close>

theorem no_valid_lines_counterexample:
  "file_lines line_ten_columns = [line_ten_columns]
   \<and> \<not> is_comment line_ten_columns \<and> length (columns line_ten_columns) = 10
   \<and> parse_gff2 (file_lines line_ten_columns) = Inl (ValueError TooManyValuesToUnpack)
   \<and> parse_gff2 (file_lines line_ten_columns) \<noteq> Inl (ValueError EmptySequence)"
proof -
  have a: "file_lines line_ten_columns = [line_ten_columns]" by code_simp
  have b: "\<not> is_comment line_ten_columns" by code_simp
  have c: "length (columns line_ten_columns) = 10" by code_simp
  have d: "parse_gff2 (file_lines line_ten_columns) = Inl (ValueError TooManyValuesToUnpack)"
    by code_simp
  from a b c d show ?thesis by simp
qed

text \<open>
  Claim C8, amended. For every file with no feature line of exactly nine columns,
  \<^verbatim>\<open>parse_gff2\<close> fails, and the loop of \<^verbatim>\<open>main\<close> stops at that file with the error and
  has written nothing for it. When every line of the file is skipped (it is a comment or
  track line, or has fewer than nine columns), the failure is the one of \<^verbatim>\<open>min\<close> on the
  empty list (a \<^verbatim>\<open>ValueError\<close> in Python), and a run that starts with this file writes no
  file at all.
\<close>

theorem no_valid_lines_fails:
  "((\<forall>l\<in>set (file_lines text). is_comment l \<or> length (columns l) \<noteq> 9) \<longrightarrow>
      (\<exists>c. parse_gff2 (file_lines text) = Inl (ValueError c)
          \<and> convert_files out ((fname, text) # rest) = (out, Some (ValueError c))))
   \<and> ((\<forall>l\<in>set (file_lines text). skipped l) \<longrightarrow>
        parse_gff2 (file_lines text) = Inl (ValueError EmptySequence)
        \<and> convert_files out ((fname, text) # rest) = (out, Some (ValueError EmptySequence))
        \<and> (endswith (lower fname) ''.gff'' \<longrightarrow>
             main ((fname, text) # rest) = ([], Some (ValueError EmptySequence))))"
proof (intro conjI impI)
  assume "\<forall>l\<in>set (file_lines text). is_comment l \<or> length (columns l) \<noteq> 9"
  from parse_gff2_no_nine_column_line [OF this] obtain c where
    c: "parse_gff2 (file_lines text) = Inl (ValueError c)" by blast
  from c convert_files_fails [OF c]
  show "\<exists>c. parse_gff2 (file_lines text) = Inl (ValueError c)
          \<and> convert_files out ((fname, text) # rest) = (out, Some (ValueError c))" by blast
next
  assume a: "\<forall>l\<in>set (file_lines text). skipped l"
  from parse_gff2_all_skipped [OF a]
  show p: "parse_gff2 (file_lines text) = Inl (ValueError EmptySequence)" .
  from convert_files_fails [OF p]
  show "convert_files out ((fname, text) # rest) = (out, Some (ValueError EmptySequence))" .
  assume "endswith (lower fname) ''.gff''"
  from main_first_file [OF this p]
  show "main ((fname, text) # rest) = ([], Some (ValueError EmptySequence))" .
qed

theorem no_valid_lines_fails_witness:
  "file_lines (''# header'' @ [NL] @ ''track x'' @ [NL] @ line_short)
     = [''# header'' @ [NL], ''track x'' @ [NL], line_short]
   \<and> parse_gff2 (file_lines (''# header'' @ [NL] @ ''track x'' @ [NL] @ line_short))
       = Inl (ValueError EmptySequence)
   \<and> main [(''empty.gff'', ''# header'' @ [NL] @ ''track x'' @ [NL] @ line_short)]
       = ([], Some (ValueError EmptySequence))
   \<and> convert_files [] [(''empty.gff'', ''# header'' @ [NL] @ ''track x'' @ [NL] @ line_short)]
       = ([], Some (ValueError EmptySequence))"
proof -
  let ?text = "''# header'' @ [NL] @ ''track x'' @ [NL] @ line_short"
  have fl: "file_lines ?text = [''# header'' @ [NL], ''track x'' @ [NL], line_short]"
    by code_simp
  have a: "skipped (''# header'' @ [NL])" by code_simp
  have b: "skipped (''track x'' @ [NL])" by code_simp
  have c: "skipped line_short" by code_simp
  have h: "\<forall>l\<in>set (file_lines ?text). skipped l" unfolding fl using a b c by simp
  have n: "endswith (lower ''empty.gff'') ''.gff''" by code_simp
  from no_valid_lines_fails [of ?text "[]" "''empty.gff''" "[]"] h n fl
  show ?thesis by simp
qed



text \<open>
  Claim C10. A line of ten or more columns that is not a comment is not skipped: the
  unpacking into nine names raises \<^verbatim>\<open>ValueError\<close>, so \<^verbatim>\<open>parse_gff2\<close> fails for every file
  that contains the line, with the unpacking error when the lines before it are processed
  without error. Only lines of fewer than nine columns are passed over.
\<close>
theorem too_many_columns_fails:
  assumes "\<not> is_comment l" and "9 < length (columns l)"
  shows "\<not> skipped l
       \<and> parse_line st l = Inl (ValueError TooManyValuesToUnpack)
       \<and> (\<exists>c. parse_gff2 (pre @ l # post) = Inl (ValueError c))
       \<and> (\<forall>st'. parse_lines init_state pre = Inr st' \<longrightarrow>
            parse_gff2 (pre @ l # post) = Inl (ValueError TooManyValuesToUnpack))"
proof (intro conjI allI impI)
  from assms show "\<not> skipped l" by (simp add: skipped_def)
  note tm = parse_line_too_many [OF assms]
  from tm show "parse_line st l = Inl (ValueError TooManyValuesToUnpack)" .
  have "\<exists>e. parse_line s l = Inl e" for s using tm [of s] by blast
  from parse_gff2_fails [OF this]
  show "\<exists>c. parse_gff2 (pre @ l # post) = Inl (ValueError c)" .
  fix st' assume "parse_lines init_state pre = Inr st'"
  from parse_gff2_fails_at [OF this tm]
  show "parse_gff2 (pre @ l # post) = Inl (ValueError TooManyValuesToUnpack)" .
qed

theorem too_many_columns_fails_witness:
  "\<not> is_comment line_ten_columns \<and> length (columns line_ten_columns) = 10
   \<and> parse_gff2 [line_cds, line_ten_columns] = Inl (ValueError TooManyValuesToUnpack)
   \<and> parse_gff2 [line_cds, line_short] =
       Inr (Some ''chr1'', 100, 200, Some ''+'',
         [(''CDS'', 100, 200, ''.'', ''+'', ''0'', ''gene_id=G1'')])"
proof -
  have a: "\<not> is_comment line_ten_columns" by code_simp
  have b: "length (columns line_ten_columns) = 10" by code_simp
  have c: "parse_lines init_state [line_cds] = Inr
     \<lparr>features = [(''CDS'', 100, 200, ''.'', ''+'', ''0'', ''gene_id=G1'')],
      starts = [100], ends = [200], seqid = Some ''chr1'', strand = Some ''+''\<rparr>"
    by code_simp
  have d: "parse_gff2 [line_cds, line_short] =
       Inr (Some ''chr1'', 100, 200, Some ''+'',
         [(''CDS'', 100, 200, ''.'', ''+'', ''0'', ''gene_id=G1'')])" by code_simp
  from too_many_columns_fails [OF a, of init_state "[line_cds]" "[]"] a b c d
  show ?thesis by simp
qed

section \<open>The emitter\<close>

text \<open>
  Claim C2. The child lines that \<^verbatim>\<open>write_gff3\<close> writes, the ones after the mRNA line and
  before the final \<^verbatim>\<open>###\<close>, are the lines of the features whose type is CDS or exon, in
  the order of the feature list, and nothing else: every child line is the line of a
  feature of type exactly CDS or exon, and a feature of another type gives no line. When
  the sequence id has no tab in it, the type is the third column of the line.
\<close>

theorem write_gff3_child_types:
  "butlast (drop 3 (write_gff3 base sid lo hi sd feats))
     = map (child_line (base @ ''-PA'') sid) (filter is_child feats)
   \<and> (\<forall>l\<in>set (butlast (drop 3 (write_gff3 base sid lo hi sd feats))).
        \<exists>f\<in>set feats. (f_type f = ''CDS'' \<or> f_type f = ''exon'')
          \<and> l = child_line (base @ ''-PA'') sid f
          \<and> (TAB \<notin> set (fmt sid) \<longrightarrow> split_on TAB l ! 2 = f_type f))"
proof (intro conjI ballI)
  show c: "butlast (drop 3 (write_gff3 base sid lo hi sd feats))
     = map (child_line (base @ ''-PA'') sid) (filter is_child feats)"
    by (rule child_lines_of_output)
  fix l assume "l \<in> set (butlast (drop 3 (write_gff3 base sid lo hi sd feats)))"
  with c obtain f where f: "f \<in> set feats" "is_child f" "l = child_line (base @ ''-PA'') sid f"
    by auto
  from f(2) have "f_type f = ''CDS'' \<or> f_type f = ''exon''" by (simp add: is_child_def)
  with f child_line_type_column [OF f(2), of sid "base @ ''-PA''"]
  show "\<exists>f\<in>set feats. (f_type f = ''CDS'' \<or> f_type f = ''exon'')
          \<and> l = child_line (base @ ''-PA'') sid f
          \<and> (TAB \<notin> set (fmt sid) \<longrightarrow> split_on TAB l ! 2 = f_type f)" by blast
qed

theorem write_gff3_child_types_witness:
  "butlast (drop 3 (write_gff3 ''gene1'' (Some ''chr1'') 90 310 (Some ''+'')
      [(''gene'', 90, 310, ''.'', ''+'', ''.'', ''gene_id=G1''),
       (''CDS'', 100, 200, ''.'', ''+'', ''0'', ''gene_id=G1''),
       (''exon'', 150, 300, ''.'', ''+'', ''.'', ''gene_id=G1'')]))
   = [''chr1'' @ [TAB] @ ''GEP'' @ [TAB] @ ''CDS'' @ [TAB] @ ''100'' @ [TAB] @ ''200'' @ [TAB]
        @ ''.'' @ [TAB] @ ''+'' @ [TAB] @ ''0'' @ [TAB] @ ''Parent=gene1-PA;gene_id=G1'' @ [NL],
      ''chr1'' @ [TAB] @ ''GEP'' @ [TAB] @ ''exon'' @ [TAB] @ ''150'' @ [TAB] @ ''300'' @ [TAB]
        @ ''.'' @ [TAB] @ ''+'' @ [TAB] @ ''.'' @ [TAB] @ ''Parent=gene1-PA;gene_id=G1'' @ [NL]]"
proof -
  let ?feats = "[(''gene'', 90, 310, ''.'', ''+'', ''.'', ''gene_id=G1''),
       (''CDS'', 100, 200, ''.'', ''+'', ''0'', ''gene_id=G1''),
       (''exon'', 150, 300, ''.'', ''+'', ''.'', ''gene_id=G1'')]"
  have "map (child_line (''gene1'' @ ''-PA'') (Some ''chr1'')) (filter is_child ?feats)
   = [''chr1'' @ [TAB] @ ''GEP'' @ [TAB] @ ''CDS'' @ [TAB] @ ''100'' @ [TAB] @ ''200'' @ [TAB]
        @ ''.'' @ [TAB] @ ''+'' @ [TAB] @ ''0'' @ [TAB] @ ''Parent=gene1-PA;gene_id=G1'' @ [NL],
      ''chr1'' @ [TAB] @ ''GEP'' @ [TAB] @ ''exon'' @ [TAB] @ ''150'' @ [TAB] @ ''300'' @ [TAB]
        @ ''.'' @ [TAB] @ ''+'' @ [TAB] @ ''.'' @ [TAB] @ ''Parent=gene1-PA;gene_id=G1'' @ [NL]]"
    by code_simp
  with write_gff3_child_types [of "''gene1''" "Some ''chr1''" 90 310 "Some ''+''" ?feats]
  show ?thesis by simp
qed

text \<open>
  Claim C3. For every base name, the mRNA line (the third string written) carries
  \<^verbatim>\<open>ID=<base>-PA;transcript_id=<base>-PA\<close>, the same identifier twice, as its attribute
  column, and every child line is the eight columns of its feature followed by an
  attribute column that begins with \<^verbatim>\<open>Parent=<base>-PA\<close>, the same identifier again.
\<close>

theorem write_gff3_mrna_id:
  "write_gff3 base sid lo hi sd feats ! 2 =
     fmt sid @ [TAB] @ ''.'' @ [TAB] @ ''mRNA'' @ [TAB] @ str_int lo @ [TAB] @ str_int hi
       @ [TAB] @ ''.'' @ [TAB] @ fmt sd @ [TAB] @ ''.'' @ [TAB]
       @ ''ID='' @ (base @ ''-PA'') @ '';transcript_id='' @ (base @ ''-PA'') @ [NL]
   \<and> (\<forall>l\<in>set (butlast (drop 3 (write_gff3 base sid lo hi sd feats))).
        \<exists>f\<in>set feats.
          l = fmt sid @ [TAB] @ ''GEP'' @ [TAB] @ f_type f @ [TAB] @ str_int (f_start f) @ [TAB]
                @ str_int (f_end f) @ [TAB] @ f_score f @ [TAB] @ f_strand f @ [TAB]
                @ f_phase f @ [TAB]
                @ ''Parent='' @ (base @ ''-PA'') @ '';'' @ f_attrs f @ [NL])"
proof (intro conjI ballI)
  show "write_gff3 base sid lo hi sd feats ! 2 =
     fmt sid @ [TAB] @ ''.'' @ [TAB] @ ''mRNA'' @ [TAB] @ str_int lo @ [TAB] @ str_int hi
       @ [TAB] @ ''.'' @ [TAB] @ fmt sd @ [TAB] @ ''.'' @ [TAB]
       @ ''ID='' @ (base @ ''-PA'') @ '';transcript_id='' @ (base @ ''-PA'') @ [NL]"
    by (simp add: write_gff3_def mrna_line_def Let_def numeral_2_eq_2)
  fix l assume "l \<in> set (butlast (drop 3 (write_gff3 base sid lo hi sd feats)))"
  then obtain f where "f \<in> set feats" "l = child_line (base @ ''-PA'') sid f"
    by (auto simp: child_lines_of_output)
  then show "\<exists>f\<in>set feats.
          l = fmt sid @ [TAB] @ ''GEP'' @ [TAB] @ f_type f @ [TAB] @ str_int (f_start f) @ [TAB]
                @ str_int (f_end f) @ [TAB] @ f_score f @ [TAB] @ f_strand f @ [TAB]
                @ f_phase f @ [TAB]
                @ ''Parent='' @ (base @ ''-PA'') @ '';'' @ f_attrs f @ [NL]"
    by (auto simp: child_line_fields)
qed

theorem write_gff3_mrna_id_witness:
  "write_gff3 ''gene1'' (Some ''chr1'') 100 300 (Some ''+'')
      [(''CDS'', 100, 200, ''.'', ''+'', ''0'', ''gene_id=G1''),
       (''exon'', 150, 300, ''.'', ''+'', ''.'', ''gene_id=G1'')] ! 2
   = ''chr1'' @ [TAB] @ ''.'' @ [TAB] @ ''mRNA'' @ [TAB] @ ''100'' @ [TAB] @ ''300'' @ [TAB]
       @ ''.'' @ [TAB] @ ''+'' @ [TAB] @ ''.'' @ [TAB]
       @ ''ID=gene1-PA;transcript_id=gene1-PA'' @ [NL]
   \<and> length (butlast (drop 3 (write_gff3 ''gene1'' (Some ''chr1'') 100 300 (Some ''+'')
      [(''CDS'', 100, 200, ''.'', ''+'', ''0'', ''gene_id=G1''),
       (''exon'', 150, 300, ''.'', ''+'', ''.'', ''gene_id=G1'')]))) = 2"
proof -
  let ?feats = "[(''CDS'', 100, 200, ''.'', ''+'', ''0'', ''gene_id=G1''),
       (''exon'', 150, 300, ''.'', ''+'', ''.'', ''gene_id=G1'')]"
  have n: "str_int 100 = ''100''" "str_int 300 = ''300''" by code_simp+
  have k: "length (butlast (drop 3 (write_gff3 ''gene1'' (Some ''chr1'') 100 300 (Some ''+'')
      ?feats))) = 2" by code_simp
  from write_gff3_mrna_id [of "''gene1''" "Some ''chr1''" 100 300 "Some ''+''" ?feats] n k
  show ?thesis by simp
qed

end
